theory Spec2Isabelle
  imports Complex_Main
begin

section \<open>The BIONIC trainer (src/bionic/train.py)\<close>

text \<open>
  The embedding follows the control flow of the class \<open>Trainer\<close>. Everything the trainer
  obtains from collaborators outside of train.py (the preprocessor, the samplers, the
  encoder, the two loss functions, NumPy's random permutation) enters as data: the values
  those calls returned in the run under consideration. Loss values are idealised as reals.
  Every place where the Python raises is a branch returning \<open>Inl\<close>.
\<close>

subsection \<open>Data\<close>

datatype py_error =
    ValueError string
  | TypeError
  | IndexError
  | UnboundLocalError
  | AttributeError
  | ZeroDivisionError

text \<open>
  The attributes of a trainer that the control flow reads: the parsed parameters
  (\<open>self.params\<close>) and the preprocessed inputs. A label tensor is kept as its shape
  (rows, classes); a label mask as its length. \<open>num_nodes\<close> is \<open>len(self.index)\<close> and
  \<open>num_graphs\<close> is \<open>len(self.adj)\<close>, which is also the number of train loaders.
\<close>

record trainer =
  initialization :: string
  epochs :: nat
  batch_size :: nat
  sample_size :: "int option"
  use_tensorboard :: bool
  num_nodes :: nat
  num_graphs :: nat
  labels :: "(nat \<times> nat) list option"
  label_masks :: "nat list"

text \<open>Python truthiness of the three values the trainer tests with \<open>if x\<close> or \<open>bool(x)\<close>.\<close>

definition truthy_list :: "'a list option \<Rightarrow> bool" where
  "truthy_list l = (case l of None \<Rightarrow> False | Some xs \<Rightarrow> xs \<noteq> [])"

definition truthy_int :: "int option \<Rightarrow> bool" where
  "truthy_int n = (case n of None \<Rightarrow> False | Some k \<Rightarrow> k \<noteq> 0)"

definition truthy_float :: "real option \<Rightarrow> bool" where
  "truthy_float x = (case x of None \<Rightarrow> False | Some r \<Rightarrow> r \<noteq> 0)"

subsection \<open>Model construction: \<open>_init_model\<close> and \<open>_init_model_weights\<close>\<close>

datatype init_scheme = Kaiming | Xavier

text \<open>A module of the network: whether it has a \<open>weight\<close> attribute, and how that
  weight has been initialised so far.\<close>

record nn_module =
  has_weight :: bool
  weight_init :: "init_scheme option"

definition init_model_weights :: "trainer \<Rightarrow> nn_module \<Rightarrow> py_error + nn_module" where
  "init_model_weights t m =
     (if has_weight m then
        (if initialization t = ''kaiming'' then Inr (m\<lparr>weight_init := Some Kaiming\<rparr>)
         else if initialization t = ''xavier'' then Inr (m\<lparr>weight_init := Some Xavier\<rparr>)
         else Inl (ValueError (initialization t)))
      else Inr m)"

text \<open>\<open>model.apply(fn)\<close> calls \<open>fn\<close> on every module of the network in turn; the first
  exception leaves the loop.\<close>

fun module_apply :: "(nn_module \<Rightarrow> py_error + nn_module) \<Rightarrow> nn_module list
    \<Rightarrow> py_error + nn_module list" where
  "module_apply fn [] = Inr []"
| "module_apply fn (m # ms) =
     (case fn m of
        Inl e \<Rightarrow> Inl e
      | Inr m' \<Rightarrow> (case module_apply fn ms of Inl e \<Rightarrow> Inl e | Inr ms' \<Rightarrow> Inr (m' # ms')))"

definition n_classes :: "trainer \<Rightarrow> nat list option" where
  "n_classes t =
     (if truthy_list (labels t) then
        (case labels t of None \<Rightarrow> None | Some ls \<Rightarrow> Some (map snd ls))
      else None)"

text \<open>\<open>_init_model\<close>, given the modules that \<open>Bionic(...)\<close> built. The result is the
  \<open>n_classes\<close> argument the network was built with and its initialised modules.\<close>

definition init_model :: "trainer \<Rightarrow> nn_module list
    \<Rightarrow> py_error + (nat list option \<times> nn_module list)" where
  "init_model t mods =
     (case module_apply (init_model_weights t) mods of
        Inl e \<Rightarrow> Inl e
      | Inr mods' \<Rightarrow> Inr (n_classes t, mods'))"

subsection \<open>One training step: \<open>_train_step\<close>\<close>

text \<open>
  What the collaborators returned for one mini-batch: \<open>mse i j\<close> is the value of
  \<open>masked_scaled_mse\<close> for graph \<open>i\<close> with mask column \<open>j\<close>; \<open>label_preds\<close> is \<open>None\<close>
  when the encoder returned no label predictions and otherwise their number; \<open>cls k\<close> is
  the value of \<open>classification_loss\<close> on the \<open>k\<close>-th (prediction, label, mask) triple.
\<close>

record batch =
  mse :: "nat \<Rightarrow> nat \<Rightarrow> real"
  label_preds :: "nat option"
  cls :: "nat \<Rightarrow> real"

datatype event = ZeroGrad | Backward real | OptimizerStep

definition recon_losses :: "trainer \<Rightarrow> nat list \<Rightarrow> batch \<Rightarrow> real list" where
  "recon_losses t rand_net_idx b =
     (if truthy_int (sample_size t)
      then map (\<lambda>(j, i). mse b i j) (enumerate 0 rand_net_idx)
      else map (\<lambda>i. mse b i i) [0..<num_graphs t])"

definition cls_losses :: "trainer \<Rightarrow> batch \<Rightarrow> nat \<Rightarrow> real list" where
  "cls_losses t b n_preds =
     (case labels t of
        None \<Rightarrow> []
      | Some ls \<Rightarrow> map (cls b) [0..<min n_preds (min (length ls) (length (label_masks t)))])"

text \<open>The terms whose sum is back-propagated for a batch (\<open>curr_losses\<close> when there are
  label predictions, \<open>recon_losses\<close> otherwise).\<close>

definition curr_losses :: "trainer \<Rightarrow> nat list \<Rightarrow> batch \<Rightarrow> real list" where
  "curr_losses t rand_net_idx b =
     (case label_preds b of
        Some n_preds \<Rightarrow> recon_losses t rand_net_idx b @ cls_losses t b n_preds
      | None \<Rightarrow> recon_losses t rand_net_idx b)"

text \<open>
  The loop over the batches. The state is the running \<open>losses\<close> list, the terms each
  batch added to it (one list per batch), and the calls made on the optimizer and on
  \<open>loss_sum\<close>. Label predictions without labels read the unbound \<open>batch_labels\<close>; an
  empty list of terms makes \<open>sum\<close> return the integer 0, which has no \<open>backward\<close>.
\<close>

fun step_batches :: "trainer \<Rightarrow> nat list \<Rightarrow> batch list
    \<Rightarrow> real list \<times> real list list \<times> event list
    \<Rightarrow> py_error + (real list \<times> real list list \<times> event list)" where
  "step_batches t rand_net_idx [] acc = Inr acc"
| "step_batches t rand_net_idx (b # bs) (losses, added, tr) =
     (if label_preds b \<noteq> None \<and> labels t = None then Inl UnboundLocalError
      else if curr_losses t rand_net_idx b = [] then Inl AttributeError
      else step_batches t rand_net_idx bs
             (map (\<lambda>(loss, curr_loss). loss + curr_loss) (zip losses (curr_losses t rand_net_idx b)),
              added @ [map snd (zip losses (curr_losses t rand_net_idx b))],
              tr @ [ZeroGrad, Backward (sum_list (curr_losses t rand_net_idx b)), OptimizerStep]))"

definition n_label_slots :: "trainer \<Rightarrow> nat" where
  "n_label_slots t = (case labels t of None \<Rightarrow> 0 | Some ls \<Rightarrow> length ls)"

text \<open>\<open>_train_step(rand_net_idx)\<close> on the batches \<open>bs\<close> that the loaders yield. With no
  batch at all the final \<open>return output, losses\<close> reads the unbound \<open>output\<close>.\<close>

definition train_step :: "trainer \<Rightarrow> nat list option \<Rightarrow> batch list
    \<Rightarrow> py_error + (real list \<times> real list list \<times> event list)" where
  "train_step t rand_net_idx bs =
     (if truthy_int (sample_size t) then
        (case rand_net_idx of
           None \<Rightarrow> Inl TypeError
         | Some idxs \<Rightarrow>
             if \<exists>i \<in> set idxs. num_graphs t \<le> i then Inl IndexError
             else (case step_batches t idxs bs
                         (replicate (length idxs + n_label_slots t) 0, [], []) of
                     Inl e \<Rightarrow> Inl e
                   | Inr r \<Rightarrow> if bs = [] then Inl UnboundLocalError else Inr r))
      else
        (case step_batches t [] bs (replicate (num_graphs t + n_label_slots t) 0, [], []) of
           Inl e \<Rightarrow> Inl e
         | Inr r \<Rightarrow> if bs = [] then Inl UnboundLocalError else Inr r))"

subsection \<open>One epoch of \<open>train\<close>\<close>

text \<open>
  What the collaborators returned during one epoch: the permutation drawn by
  \<open>np.random.permutation(len(self.adj))\<close>, the batches met by the \<open>k\<close>-th call of
  \<open>_train_step\<close> in the epoch, and the contents that the calls of \<open>optimizer.step()\<close>
  of the epoch leave in the parameter tensors of the model.
\<close>

record 'p epoch_run =
  rand_net_idxs :: "nat list"
  passes :: "nat \<Rightarrow> batch list"
  model_state :: 'p

text \<open>\<open>np.array_split(ary, sections)\<close>: the first \<open>len(ary) mod sections\<close> parts have one
  element more than the others; a number of sections below one is a \<open>ValueError\<close>.\<close>

fun chop :: "nat list \<Rightarrow> 'a list \<Rightarrow> 'a list list" where
  "chop [] xs = []"
| "chop (n # ns) xs = take n xs # chop ns (drop n xs)"

definition array_split :: "'a list \<Rightarrow> int \<Rightarrow> py_error + 'a list list" where
  "array_split ary sections =
     (if sections \<le> 0 then Inl (ValueError ''number sections must be larger than 0.'')
      else Inr (chop (replicate (length ary mod nat sections) (length ary div nat sections + 1)
                      @ replicate (nat sections - length ary mod nat sections)
                          (length ary div nat sections))
                     ary))"

text \<open>The two write loops that follow a restricted pass. The first adds to the slots
  \<open>recon_slots\<close>, the second assigns the slots \<open>cls_slots\<close>.\<close>

definition recon_slots :: "nat list \<Rightarrow> real list \<Rightarrow> nat list" where
  "recon_slots rand_idxs losses = map fst (zip rand_idxs losses)"

definition cls_slots :: "nat list \<Rightarrow> real list \<Rightarrow> nat list" where
  "cls_slots rand_idxs losses =
     map (\<lambda>(idx, loss). length rand_idxs + idx) (enumerate 0 (drop (length rand_idxs) losses))"

definition write_recon :: "nat list \<Rightarrow> real list \<Rightarrow> real list \<Rightarrow> real list" where
  "write_recon rand_idxs losses epoch_losses =
     fold (\<lambda>(idx, loss) el. el[idx := el ! idx + loss]) (zip rand_idxs losses) epoch_losses"

definition write_cls :: "nat list \<Rightarrow> real list \<Rightarrow> real list \<Rightarrow> real list" where
  "write_cls rand_idxs losses epoch_losses =
     fold (\<lambda>(idx, loss) el. el[length rand_idxs + idx := loss])
          (enumerate 0 (drop (length rand_idxs) losses)) epoch_losses"

text \<open>The loop over the groups of sampled graphs; \<open>k\<close> counts the calls of
  \<open>_train_step\<close>. A slot outside the accumulator is NumPy's \<open>IndexError\<close>. Beside the
  accumulator the state keeps, for every group, the slots that its two write loops wrote.\<close>

fun sampled_passes :: "trainer \<Rightarrow> (nat \<Rightarrow> batch list) \<Rightarrow> nat list list \<Rightarrow> nat
    \<Rightarrow> real list \<times> (nat list \<times> nat list) list
    \<Rightarrow> py_error + (real list \<times> (nat list \<times> nat list) list)" where
  "sampled_passes t bf [] k acc = Inr acc"
| "sampled_passes t bf (rand_idxs # rest) k (epoch_losses, written) =
     (case train_step t (Some rand_idxs) (bf k) of
        Inl e \<Rightarrow> Inl e
      | Inr (losses, added, tr) \<Rightarrow>
          if \<exists>i \<in> set (recon_slots rand_idxs losses @ cls_slots rand_idxs losses).
               length epoch_losses \<le> i
          then Inl IndexError
          else sampled_passes t bf rest (Suc k)
                 (write_cls rand_idxs losses (write_recon rand_idxs losses epoch_losses),
                  written @ [(recon_slots rand_idxs losses, cls_slots rand_idxs losses)]))"

text \<open>The branch of the epoch without sub-sampling: one pass over all graphs, then each
  slot is divided by \<open>len(self.index) / self.params.batch_size\<close>, a float division.\<close>

definition full_epoch :: "trainer \<Rightarrow> 'p epoch_run \<Rightarrow> py_error + real list" where
  "full_epoch t er =
     (case train_step t None (passes er 0) of
        Inl e \<Rightarrow> Inl e
      | Inr (losses, added, tr) \<Rightarrow>
          if zip (replicate (num_graphs t + n_label_slots t) (0::real)) losses \<noteq> []
             \<and> (batch_size t = 0 \<or> num_nodes t = 0)
          then Inl ZeroDivisionError
          else Inr (map (\<lambda>(ep_loss, b_loss).
                           ep_loss + b_loss / (real (num_nodes t) / real (batch_size t)))
                      (zip (replicate (num_graphs t + n_label_slots t) 0) losses)))"

text \<open>The branch with sub-sampling, for the sample size \<open>s\<close>.\<close>

definition sampled_epoch :: "trainer \<Rightarrow> int \<Rightarrow> 'p epoch_run
    \<Rightarrow> py_error + (real list \<times> (nat list \<times> nat list) list)" where
  "sampled_epoch t s er =
     (case array_split (rand_net_idxs er) \<lfloor>real (num_graphs t) / real_of_int s\<rfloor> of
        Inl e \<Rightarrow> Inl e
      | Inr idx_split \<Rightarrow>
          sampled_passes t (passes er) idx_split 0
            (replicate (num_graphs t + n_label_slots t) 0, []))"

text \<open>The body of the epoch loop up to the value of \<open>epoch_losses\<close> that is appended to
  \<open>train_loss\<close>; the test is \<open>bool(self.params.sample_size)\<close>.\<close>

definition run_epoch :: "trainer \<Rightarrow> 'p epoch_run \<Rightarrow> py_error + real list" where
  "run_epoch t er =
     (case sample_size t of
        Some s \<Rightarrow>
          if s \<noteq> 0 then
            (case sampled_epoch t s er of
               Inl e \<Rightarrow> Inl e
             | Inr (epoch_losses, written) \<Rightarrow> Inr epoch_losses)
          else full_epoch t er
      | None \<Rightarrow> full_epoch t er)"

subsection \<open>The epoch loop and the best snapshot: \<open>train\<close>\<close>

text \<open>
  The parameter tensors of the model are mutable objects, so they are kept in a store from
  addresses to contents; all parameters of the model are one object, at the address
  \<open>model_params\<close>. \<open>optimizer.step()\<close> writes the parameters in place.
  \<open>self.model.state_dict()\<close> builds a dictionary of the parameter tensors themselves; train.py
  takes no copy of it (there is no \<open>deepcopy\<close> or \<open>clone\<close> in the file), so the dictionary is
  a reference to the parameters and not a copy of their contents.
\<close>

type_synonym addr = nat

type_synonym 'p store = "addr \<Rightarrow> 'p"

definition model_params :: addr where
  "model_params = 0"

definition optimizer_steps :: "'p \<Rightarrow> 'p store \<Rightarrow> 'p store" where
  "optimizer_steps p h = h(model_params := p)"

definition model_state_dict :: addr where
  "model_state_dict = model_params"

text \<open>A snapshot is the dictionary of line 214; \<open>'r\<close> is what stands for its tensors:
  an address while the snapshot is an object of the program, contents once it is read.\<close>

record 'r snapshot =
  epoch :: nat
  state_dict :: 'r
  best_loss :: real

text \<open>Lines 200 to 207. With at most ten graphs the dictionary for the writer is built from
  \<open>self.names\<close>, an attribute that nothing in the class assigns: reading it is an
  \<open>AttributeError\<close>. With more graphs the writer is given the total.\<close>

definition tensorboard_log :: "trainer \<Rightarrow> real list \<Rightarrow> py_error + unit" where
  "tensorboard_log t epoch_losses =
     (if use_tensorboard t then
        (if num_graphs t \<le> 10 then Inl AttributeError else Inr ())
      else Inr ())"

text \<open>Lines 211 to 219: the test is \<open>not best_loss or sum(epoch_losses) < best_loss\<close>, and
  the snapshot stores \<open>self.model.state_dict()\<close> as it is.\<close>

definition store_best :: "nat \<Rightarrow> real list \<Rightarrow> real option \<times> addr snapshot option
    \<Rightarrow> real option \<times> addr snapshot option" where
  "store_best ep epoch_losses best =
     (case best of (bl, bs) \<Rightarrow>
        if \<not> truthy_float bl \<or> (case bl of None \<Rightarrow> False | Some l \<Rightarrow> sum_list epoch_losses < l)
        then (Some (sum_list epoch_losses),
              Some \<lparr>epoch = ep + 1, state_dict = model_state_dict,
                    best_loss = sum_list epoch_losses\<rparr>)
        else (bl, bs))"

text \<open>The epoch loop. The state is \<open>train_loss\<close>, \<open>best_loss\<close>, \<open>best_state\<close> and the
  store, in which the optimizer steps of the epoch have overwritten the parameters.\<close>

fun train_epochs :: "trainer \<Rightarrow> (nat \<Rightarrow> 'p epoch_run) \<Rightarrow> nat list
    \<Rightarrow> real list list \<times> real option \<times> addr snapshot option \<times> 'p store
    \<Rightarrow> py_error + (real list list \<times> real option \<times> addr snapshot option \<times> 'p store)" where
  "train_epochs t env [] st = Inr st"
| "train_epochs t env (ep # eps) (train_loss, bl, bs, h) =
     (case run_epoch t (env ep) of
        Inl e \<Rightarrow> Inl e
      | Inr epoch_losses \<Rightarrow>
          (case tensorboard_log t epoch_losses of
             Inl e \<Rightarrow> Inl e
           | Inr u \<Rightarrow>
               (case store_best ep epoch_losses (bl, bs) of
                  (bl', bs') \<Rightarrow>
                    train_epochs t env eps
                      (train_loss @ [epoch_losses], bl', bs',
                       optimizer_steps (model_state (env ep)) h))))"

text \<open>\<open>train\<close> returns the two attributes it sets, \<open>train_loss\<close> and \<open>best_state\<close>, and
  the store it leaves.\<close>

definition train :: "trainer \<Rightarrow> (nat \<Rightarrow> 'p epoch_run) \<Rightarrow> 'p store
    \<Rightarrow> py_error + (real list list \<times> addr snapshot option \<times> 'p store)" where
  "train t env h =
     (case train_epochs t env [0..<epochs t] ([], None, None, h) of
        Inl e \<Rightarrow> Inl e
      | Inr (train_loss, bl, bs, h') \<Rightarrow> Inr (train_loss, bs, h'))"

subsection \<open>The start of inference: \<open>forward\<close>\<close>

text \<open>
  The first statement of \<open>forward\<close>, which decides the parameters used for inference.
  The result tells whether \<open>load_state_dict\<close> was called and which parameters the model
  holds afterwards. Subscripting a \<open>best_state\<close> that is \<open>None\<close> is a \<open>TypeError\<close>.
\<close>

definition forward :: "trainer \<Rightarrow> 'p snapshot option \<Rightarrow> 'p \<Rightarrow> py_error + (bool \<times> 'p)" where
  "forward t best_state current =
     (if labels t = None then
        (case best_state of
           None \<Rightarrow> Inl TypeError
         | Some s \<Rightarrow> Inr (True, state_dict s))
      else Inr (False, current))"

text \<open>What a later statement reads in a snapshot: each tensor with the contents that the
  store holds for it at that time.\<close>

definition read_snapshot :: "'p store \<Rightarrow> addr snapshot \<Rightarrow> 'p snapshot" where
  "read_snapshot h s = \<lparr>epoch = epoch s, state_dict = h (state_dict s), best_loss = best_loss s\<rparr>"

text \<open>\<open>trainer.train()\<close> followed by \<open>trainer.forward()\<close>: \<open>forward\<close> reads
  \<open>self.best_state\<close> and the parameters of the model in the store that \<open>train\<close> left.\<close>

definition train_forward :: "trainer \<Rightarrow> (nat \<Rightarrow> 'p epoch_run) \<Rightarrow> 'p store
    \<Rightarrow> py_error + (bool \<times> 'p)" where
  "train_forward t env h =
     (case train t env h of
        Inl e \<Rightarrow> Inl e
      | Inr (train_loss, best_state, h') \<Rightarrow>
          forward t (map_option (read_snapshot h') best_state) (h' model_params))"

subsection \<open>Notions used in the statements\<close>

text \<open>The indices a call \<open>_train_step(rand_net_idx)\<close> was given (none without argument).\<close>

definition passed_idx :: "nat list option \<Rightarrow> nat list" where
  "passed_idx rand_net_idx = (case rand_net_idx of None \<Rightarrow> [] | Some idxs \<Rightarrow> idxs)"

text \<open>The scalars on which \<open>backward\<close> was called, in order.\<close>

fun backward_calls :: "event list \<Rightarrow> real list" where
  "backward_calls [] = []"
| "backward_calls (Backward s # es) = s # backward_calls es"
| "backward_calls (ZeroGrad # es) = backward_calls es"
| "backward_calls (OptimizerStep # es) = backward_calls es"

text \<open>The encoder's label predictions fit the label sets of the trainer: none only when
  there is no label set, otherwise at least one prediction and one mask per label set, so
  that the \<open>zip\<close> of predictions, labels and masks has one triple per label set.\<close>

definition heads_match :: "trainer \<Rightarrow> batch \<Rightarrow> bool" where
  "heads_match t b =
     (case label_preds b of
        None \<Rightarrow> n_label_slots t = 0
      | Some k \<Rightarrow> labels t \<noteq> None \<and> n_label_slots t \<le> k
                  \<and> n_label_slots t \<le> length (label_masks t))"

text \<open>The sum, across the batches \<open>bs\<close> of a pass with the graph indices \<open>idx\<close>, of the loss
  term that a batch has for position \<open>i\<close> of the list of losses.\<close>

definition slot_sum :: "trainer \<Rightarrow> nat list \<Rightarrow> batch list \<Rightarrow> nat \<Rightarrow> real" where
  "slot_sum t idx bs i = (\<Sum>b\<leftarrow>bs. curr_losses t idx b ! i)"

subsection \<open>Concrete runs\<close>

text \<open>A batch without label predictions in which every reconstruction loss is \<open>r\<close>.\<close>

definition ex_batch :: "real \<Rightarrow> batch" where
  "ex_batch r = \<lparr>mse = (\<lambda>i j. r), label_preds = None, cls = (\<lambda>k. 0)\<rparr>"

text \<open>Three graphs over ten nodes, no labels, no sub-sampling, two epochs, batches of ten
  nodes. Epoch \<open>e\<close> meets one batch, with reconstruction losses \<open>1 + e\<close>, and leaves
  the parameters \<open>100 + e\<close> in the model.\<close>

definition ex_plain :: trainer where
  "ex_plain = \<lparr>initialization = ''xavier'', epochs = 2, batch_size = 10, sample_size = None,
               use_tensorboard = False, num_nodes = 10, num_graphs = 3, labels = None,
               label_masks = []\<rparr>"

definition ex_plain_env :: "nat \<Rightarrow> nat epoch_run" where
  "ex_plain_env e =
     \<lparr>rand_net_idxs = [], passes = (\<lambda>k. [ex_batch (1 + real e)]), model_state = 100 + e\<rparr>"

text \<open>Two graphs and one label set with four classes; a batch with one label prediction,
  reconstruction losses 1 and 2 and classification loss 5.\<close>

definition ex_labelled :: trainer where
  "ex_labelled = \<lparr>initialization = ''kaiming'', epochs = 1, batch_size = 10, sample_size = None,
                  use_tensorboard = False, num_nodes = 20, num_graphs = 2,
                  labels = Some [(20, 4)], label_masks = [20]\<rparr>"

definition ex_labelled_batch :: batch where
  "ex_labelled_batch = \<lparr>mse = (\<lambda>i j. real (i + 1)), label_preds = Some 1, cls = (\<lambda>k. 5)\<rparr>"

text \<open>The run \<open>ex_plain\<close> with other losses: the total loss of the first epoch is 0, that
  of the second epoch is 6.\<close>

definition ex_zero_env :: "nat \<Rightarrow> nat epoch_run" where
  "ex_zero_env e =
     \<lparr>rand_net_idxs = [], passes = (\<lambda>k. [ex_batch (2 * real e)]), model_state = 100 + e\<rparr>"

text \<open>Two graphs sampled one at a time, with one label set. The permutation of the epoch is
  the identity and each restricted pass meets one batch, again \<open>ex_labelled_batch\<close>.\<close>

definition ex_sampled :: trainer where
  "ex_sampled = \<lparr>initialization = ''kaiming'', epochs = 1, batch_size = 10,
                 sample_size = Some 1, use_tensorboard = False, num_nodes = 10, num_graphs = 2,
                 labels = Some [(10, 4)], label_masks = [10]\<rparr>"

definition ex_sampled_env :: "nat epoch_run" where
  "ex_sampled_env =
     \<lparr>rand_net_idxs = [0, 1], passes = (\<lambda>k. [ex_labelled_batch]), model_state = 100\<rparr>"

text \<open>Three graphs sampled one at a time, without labels. The permutation of the epoch is
  \<open>[2, 0, 1]\<close>; each restricted pass meets two batches, in each of which the reconstruction
  loss of graph \<open>i\<close> is \<open>i + 1\<close>.\<close>

definition ex_sampled_plain :: trainer where
  "ex_sampled_plain = \<lparr>initialization = ''xavier'', epochs = 1, batch_size = 5,
                       sample_size = Some 1, use_tensorboard = False, num_nodes = 10,
                       num_graphs = 3, labels = None, label_masks = []\<rparr>"

definition ex_graph_batch :: batch where
  "ex_graph_batch = \<lparr>mse = (\<lambda>i j. real (i + 1)), label_preds = None, cls = (\<lambda>k. 0)\<rparr>"

definition ex_sampled_plain_env :: "nat epoch_run" where
  "ex_sampled_plain_env =
     \<lparr>rand_net_idxs = [2, 0, 1], passes = (\<lambda>k. [ex_graph_batch, ex_graph_batch]),
      model_state = 100\<rparr>"

text \<open>An epoch of \<open>ex_labelled\<close> that meets the batch \<open>ex_labelled_batch\<close> twice.\<close>

definition ex_labelled_env :: "nat epoch_run" where
  "ex_labelled_env =
     \<lparr>rand_net_idxs = [], passes = (\<lambda>k. [ex_labelled_batch, ex_labelled_batch]),
      model_state = 100\<rparr>"

lemma step_batches_trace:
  "step_batches t idx bs (losses, added, tr) = Inr (losses', added', tr') \<Longrightarrow>
   tr' = tr @ concat (map (\<lambda>b. [ZeroGrad, Backward (sum_list (curr_losses t idx b)), OptimizerStep]) bs)"
proof (induction bs arbitrary: losses added tr)
  case Nil
  then show ?case by simp
next
  case (Cons b bs)
  from Cons.prems have ok:
    "step_batches t idx bs
       (map (\<lambda>(loss, curr_loss). loss + curr_loss) (zip losses (curr_losses t idx b)),
        added @ [map snd (zip losses (curr_losses t idx b))],
        tr @ [ZeroGrad, Backward (sum_list (curr_losses t idx b)), OptimizerStep])
     = Inr (losses', added', tr')"
    by (simp split: if_splits)
  from Cons.IH[OF ok] show ?case by simp
qed

lemma zip_snd_all: "length ys \<le> length xs \<Longrightarrow> map snd (zip xs ys) = ys"
  by (induction xs ys rule: list_induct2') auto

lemma step_batches_added:
  "step_batches t idx bs (losses, added, tr) = Inr (losses', added', tr') \<Longrightarrow>
   \<forall>b \<in> set bs. length (curr_losses t idx b) = n \<Longrightarrow> n \<le> length losses \<Longrightarrow>
   added' = added @ map (curr_losses t idx) bs"
proof (induction bs arbitrary: losses added tr)
  case Nil
  then show ?case by simp
next
  case (Cons b bs)
  from Cons.prems(1) have ok:
    "step_batches t idx bs
       (map (\<lambda>(loss, curr_loss). loss + curr_loss) (zip losses (curr_losses t idx b)),
        added @ [map snd (zip losses (curr_losses t idx b))],
        tr @ [ZeroGrad, Backward (sum_list (curr_losses t idx b)), OptimizerStep])
     = Inr (losses', added', tr')"
    by (simp split: if_splits)
  have len: "length (curr_losses t idx b) = n" using Cons.prems(2) by simp
  have "n \<le> length (map (\<lambda>(loss, curr_loss). loss + curr_loss) (zip losses (curr_losses t idx b)))"
    using len Cons.prems(3) by simp
  with Cons.IH[OF ok] Cons.prems(2)
  have "added' = (added @ [map snd (zip losses (curr_losses t idx b))]) @ map (curr_losses t idx) bs"
    by simp
  moreover have "map snd (zip losses (curr_losses t idx b)) = curr_losses t idx b"
    using len Cons.prems(3) by (simp add: zip_snd_all)
  ultimately show ?case by simp
qed

lemma step_batches_losses:
  "step_batches t idx bs (losses, added, tr) = Inr (losses', added', tr') \<Longrightarrow>
   \<forall>b \<in> set bs. length (curr_losses t idx b) = n \<Longrightarrow> n \<le> length losses \<Longrightarrow> bs \<noteq> [] \<Longrightarrow>
   length losses' = n \<and> (\<forall>i < n. losses' ! i = losses ! i + (\<Sum>b\<leftarrow>bs. curr_losses t idx b ! i))"
proof (induction bs arbitrary: losses added tr)
  case Nil
  then show ?case by simp
next
  case (Cons b bs)
  let ?l1 = "map (\<lambda>(loss, curr_loss). loss + curr_loss) (zip losses (curr_losses t idx b))"
  from Cons.prems(1) have ok:
    "step_batches t idx bs
       (?l1, added @ [map snd (zip losses (curr_losses t idx b))],
        tr @ [ZeroGrad, Backward (sum_list (curr_losses t idx b)), OptimizerStep])
     = Inr (losses', added', tr')"
    by (simp split: if_splits)
  have len: "length (curr_losses t idx b) = n" using Cons.prems(2) by simp
  have l1: "length ?l1 = n" using len Cons.prems(3) by simp
  have l1v: "\<forall>i < n. ?l1 ! i = losses ! i + curr_losses t idx b ! i"
    using len Cons.prems(3) by simp
  show ?case
  proof (cases "bs = []")
    case True
    with ok have "losses' = ?l1" by simp
    with l1 l1v True show ?thesis by simp
  next
    case False
    from Cons.IH[OF ok _ _ False] Cons.prems(2) l1
    have "length losses' = n \<and> (\<forall>i < n. losses' ! i = ?l1 ! i + (\<Sum>b\<leftarrow>bs. curr_losses t idx b ! i))"
      by simp
    with l1v show ?thesis by simp
  qed
qed

lemma step_batches_succeeds:
  "\<forall>b \<in> set bs. (label_preds b \<noteq> None \<longrightarrow> labels t \<noteq> None) \<and> curr_losses t idx b \<noteq> [] \<Longrightarrow>
   \<exists>r. step_batches t idx bs acc = Inr r"
proof (induction bs arbitrary: acc)
  case Nil
  show ?case by (cases acc) simp
next
  case (Cons b bs)
  obtain losses added tr where acc: "acc = (losses, added, tr)" by (rule prod_cases3)
  have rest: "\<forall>b \<in> set bs. (label_preds b \<noteq> None \<longrightarrow> labels t \<noteq> None)
      \<and> curr_losses t idx b \<noteq> []"
    using Cons.prems by simp
  have here: "\<not> (label_preds b \<noteq> None \<and> labels t = None)" "curr_losses t idx b \<noteq> []"
    using Cons.prems by auto
  show ?case unfolding acc using here Cons.IH[OF rest] by (simp del: not_None_eq)
qed

lemma curr_losses_full:
  "\<not> truthy_int (sample_size t) \<Longrightarrow> curr_losses t idx b = curr_losses t [] b"
proof -
  assume "\<not> truthy_int (sample_size t)"
  then have "recon_losses t idx b = recon_losses t [] b"
    by (simp add: recon_losses_def)
  then show ?thesis by (simp add: curr_losses_def split: option.splits)
qed

lemma step_batches_full:
  "\<not> truthy_int (sample_size t) \<Longrightarrow> step_batches t idx bs acc = step_batches t [] bs acc"
proof (induction bs arbitrary: acc)
  case Nil
  show ?case by (cases acc) simp
next
  case (Cons b bs)
  obtain losses added tr where acc: "acc = (losses, added, tr)" by (rule prod_cases3)
  show ?case unfolding acc using Cons.IH[OF Cons.prems] curr_losses_full[OF Cons.prems, of idx b]
    by simp
qed

text \<open>A successful call of \<open>_train_step\<close> ran the batch loop on a non-empty list of
  batches, starting from zeros.\<close>

lemma train_step_Inr:
  assumes "train_step t rand_net_idx bs = Inr res"
  shows "bs \<noteq> [] \<and>
         step_batches t (passed_idx rand_net_idx) bs
           (replicate ((if truthy_int (sample_size t) then length (passed_idx rand_net_idx)
                        else num_graphs t) + n_label_slots t) 0, [], []) = Inr res"
proof (cases "truthy_int (sample_size t)")
  case True
  with assms show ?thesis
    by (auto simp: train_step_def passed_idx_def split: option.splits if_splits sum.splits)
next
  case False
  with assms have "bs \<noteq> [] \<and> step_batches t [] bs
           (replicate (num_graphs t + n_label_slots t) 0, [], []) = Inr res"
    by (auto simp: train_step_def split: if_splits sum.splits)
  with False show ?thesis by (simp add: step_batches_full[OF False, of "passed_idx rand_net_idx"])
qed

lemma length_recon_losses:
  "length (recon_losses t idx b) = (if truthy_int (sample_size t) then length idx else num_graphs t)"
  by (simp add: recon_losses_def)

lemma length_cls_losses: "length (cls_losses t b k) \<le> n_label_slots t"
  by (auto simp: cls_losses_def n_label_slots_def split: option.splits)

lemma length_curr_losses_le:
  "length (curr_losses t idx b)
     \<le> (if truthy_int (sample_size t) then length idx else num_graphs t) + n_label_slots t"
  using length_cls_losses[of t b] by (simp add: curr_losses_def length_recon_losses split: option.splits)

lemma length_curr_losses_same:
  "label_preds b = label_preds b' \<Longrightarrow>
   length (curr_losses t idx b) = length (curr_losses t idx b')"
  by (simp add: curr_losses_def length_recon_losses cls_losses_def split: option.splits)

lemma backward_calls_append: "backward_calls (xs @ ys) = backward_calls xs @ backward_calls ys"
  by (induction xs rule: backward_calls.induct) auto

lemma backward_calls_trace:
  "backward_calls (concat (map (\<lambda>b. [ZeroGrad, Backward (f b), OptimizerStep]) bs)) = map f bs"
  by (induction bs) auto


lemma module_apply_Inl:
  "m \<in> set ms \<Longrightarrow> fn m = Inl e \<Longrightarrow> \<forall>m' e'. fn m' = Inl e' \<longrightarrow> e' = e \<Longrightarrow>
   module_apply fn ms = Inl e"
proof (induction ms)
  case Nil
  from Nil.prems(1) show ?case by simp
next
  case (Cons a ms)
  show ?case
  proof (cases "fn a")
    case (Inl e')
    from Cons.prems(3) Inl have "e' = e" by blast
    with Inl show ?thesis by simp
  next
    case (Inr a')
    have "m \<noteq> a" using Inr Cons.prems(2) by auto
    with Cons.prems(1) have "m \<in> set ms" by simp
    from Cons.IH[OF this Cons.prems(2,3)] Inr show ?thesis by simp
  qed
qed

lemma store_best_Some:
  "bs = None \<longrightarrow> bl = None \<Longrightarrow> store_best ep el (bl, bs) = (bl', bs') \<Longrightarrow> bs' \<noteq> None"
  by (auto simp: store_best_def truthy_float_def split: if_splits option.splits)

lemma store_best_epoch:
  "store_best ep el (bl, bs) = (bl', Some s) \<Longrightarrow> bs = Some s \<or> epoch s = Suc ep"
  by (auto simp: store_best_def split: if_splits)

lemma train_epochs_Cons_Inr:
  assumes "train_epochs t env (ep # eps) (hist, bl, bs, h) = Inr r"
  shows "\<exists>el bl1 bs1. run_epoch t (env ep) = Inr el \<and> tensorboard_log t el = Inr ()
           \<and> store_best ep el (bl, bs) = (bl1, bs1)
           \<and> train_epochs t env eps
                 (hist @ [el], bl1, bs1, optimizer_steps (model_state (env ep)) h) = Inr r"
  using assms by (auto split: sum.splits prod.splits)

lemma train_epochs_best_Some:
  "train_epochs t env eps (hist, bl, bs, h) = Inr (hist', bl', bs', h') \<Longrightarrow>
   bs \<noteq> None \<or> (bl = None \<and> eps \<noteq> []) \<Longrightarrow> bs' \<noteq> None"
proof (induction eps arbitrary: hist bl bs h)
  case Nil
  then show ?case by simp
next
  case (Cons ep eps)
  from train_epochs_Cons_Inr[OF Cons.prems(1)] obtain el bl1 bs1 where
    sb: "store_best ep el (bl, bs) = (bl1, bs1)"
    and rest: "train_epochs t env eps
                 (hist @ [el], bl1, bs1, optimizer_steps (model_state (env ep)) h)
               = Inr (hist', bl', bs', h')"
    by blast
  from Cons.prems(2) have "bs = None \<longrightarrow> bl = None" by auto
  from store_best_Some[OF this sb] have "bs1 \<noteq> None" .
  with Cons.IH[OF rest] show ?case by blast
qed

lemma train_epochs_epoch:
  "train_epochs t env eps (hist, bl, bs, h) = Inr (hist', bl', Some s, h') \<Longrightarrow>
   bs = Some s \<or> epoch s \<in> Suc ` set eps"
proof (induction eps arbitrary: hist bl bs h)
  case Nil
  then show ?case by simp
next
  case (Cons ep eps)
  from train_epochs_Cons_Inr[OF Cons.prems(1)] obtain el bl1 bs1 where
    sb: "store_best ep el (bl, bs) = (bl1, bs1)"
    and rest: "train_epochs t env eps
                 (hist @ [el], bl1, bs1, optimizer_steps (model_state (env ep)) h)
               = Inr (hist', bl', Some s, h')"
    by blast
  from Cons.IH[OF rest] have "bs1 = Some s \<or> epoch s \<in> Suc ` set eps" .
  then show ?case
  proof
    assume "bs1 = Some s"
    with sb store_best_epoch[of ep el bl bs bl1 s] show ?thesis by auto
  next
    assume "epoch s \<in> Suc ` set eps"
    then show ?thesis by auto
  qed
qed

lemma train_epochs_loss:
  "train_epochs t env eps (hist, bl, bs, h) = Inr (hist', bl', bs', h') \<Longrightarrow>
   \<exists>els. hist' = hist @ els \<and> map (\<lambda>ep. run_epoch t (env ep)) eps = map Inr els"
proof (induction eps arbitrary: hist bl bs h)
  case Nil
  then show ?case by simp
next
  case (Cons ep eps)
  from train_epochs_Cons_Inr[OF Cons.prems(1)] obtain el bl1 bs1 where
    el: "run_epoch t (env ep) = Inr el"
    and rest: "train_epochs t env eps
                 (hist @ [el], bl1, bs1, optimizer_steps (model_state (env ep)) h)
               = Inr (hist', bl', bs', h')"
    by blast
  from Cons.IH[OF rest] obtain els where
    "hist' = (hist @ [el]) @ els" "map (\<lambda>ep. run_epoch t (env ep)) eps = map Inr els" by blast
  with el have "hist' = hist @ (el # els)
      \<and> map (\<lambda>ep. run_epoch t (env ep)) (ep # eps) = map Inr (el # els)"
    by simp
  then show ?case by blast
qed

lemma length_curr_losses_heads:
  assumes "heads_match t b"
  shows "length (curr_losses t idx b)
           = (if truthy_int (sample_size t) then length idx else num_graphs t) + n_label_slots t"
proof (cases "label_preds b")
  case None
  with assms have "n_label_slots t = 0" by (simp add: heads_match_def)
  with None show ?thesis by (simp add: curr_losses_def length_recon_losses)
next
  case (Some k)
  with assms obtain ls where ls: "labels t = Some ls" "length ls \<le> k"
      "length ls \<le> length (label_masks t)"
    by (auto simp: heads_match_def n_label_slots_def)
  then have "length (cls_losses t b k) = n_label_slots t"
    by (simp add: cls_losses_def n_label_slots_def)
  with Some show ?thesis by (simp add: curr_losses_def length_recon_losses)
qed

text \<open>What a successful pass over all graphs returns: one slot per graph and label set,
  each the sum of the batches' terms.\<close>

lemma train_step_full_losses:
  assumes "\<not> truthy_int (sample_size t)"
    and "train_step t r bs = Inr (losses, added, tr)"
    and "\<forall>b \<in> set bs. heads_match t b"
  shows "length losses = num_graphs t + n_label_slots t"
    and "\<forall>i < num_graphs t + n_label_slots t. losses ! i = (\<Sum>b\<leftarrow>bs. curr_losses t [] b ! i)"
proof -
  let ?n = "num_graphs t + n_label_slots t"
  from train_step_Inr[OF assms(2)] assms(1)
  have ne: "bs \<noteq> []"
    and sb: "step_batches t (passed_idx r) bs (replicate ?n 0, [], []) = Inr (losses, added, tr)"
    by simp_all
  from sb have sb': "step_batches t [] bs (replicate ?n 0, [], []) = Inr (losses, added, tr)"
    by (simp add: step_batches_full[OF assms(1), of "passed_idx r"])
  have len: "\<forall>b \<in> set bs. length (curr_losses t [] b) = ?n"
    using assms(1,3) by (simp add: length_curr_losses_heads)
  have le: "?n \<le> length (replicate ?n (0::real))" by simp
  from step_batches_losses[OF sb' len le ne]
  show "length losses = ?n"
    and "\<forall>i < ?n. losses ! i = (\<Sum>b\<leftarrow>bs. curr_losses t [] b ! i)"
    by simp_all
qed

lemma train_step_full_succeeds:
  assumes "\<not> truthy_int (sample_size t)" and "bs \<noteq> []"
    and "\<forall>b \<in> set bs. (label_preds b \<noteq> None \<longrightarrow> labels t \<noteq> None) \<and> curr_losses t [] b \<noteq> []"
  shows "\<exists>r. train_step t r0 bs = Inr r"
proof -
  from step_batches_succeeds[OF assms(3)]
  obtain r where "step_batches t [] bs (replicate (num_graphs t + n_label_slots t) 0, [], []) = Inr r"
    by blast
  with assms(1,2) have "train_step t r0 bs = Inr r" by (simp add: train_step_def)
  then show ?thesis by blast
qed

lemma full_epoch_Inr:
  assumes "full_epoch t er = Inr el"
  shows "\<exists>losses added tr. train_step t None (passes er 0) = Inr (losses, added, tr)
          \<and> el = map (\<lambda>(ep_loss, b_loss).
                        ep_loss + b_loss / (real (num_nodes t) / real (batch_size t)))
                    (zip (replicate (num_graphs t + n_label_slots t) 0) losses)"
  using assms by (auto simp: full_epoch_def split: sum.splits if_splits)

lemma run_epoch_full:
  "\<not> truthy_int (sample_size t) \<Longrightarrow> run_epoch t er = full_epoch t er"
  by (auto simp: run_epoch_def truthy_int_def split: option.splits)

text \<open>Without sub-sampling each slot of the epoch is the sum of the batches' terms divided
  by \<open>len(self.index) / batch_size\<close>.\<close>

lemma full_epoch_slots:
  assumes "\<not> truthy_int (sample_size t)" and "full_epoch t er = Inr el"
    and "\<forall>b \<in> set (passes er 0). heads_match t b"
  shows "length el = num_graphs t + n_label_slots t"
    and "\<forall>i < num_graphs t + n_label_slots t.
           el ! i = (\<Sum>b\<leftarrow>passes er 0. curr_losses t [] b ! i)
                      / (real (num_nodes t) / real (batch_size t))"
proof -
  let ?n = "num_graphs t + n_label_slots t"
  from full_epoch_Inr[OF assms(2)] obtain losses added tr where
    ts: "train_step t None (passes er 0) = Inr (losses, added, tr)"
    and el: "el = map (\<lambda>(ep_loss, b_loss).
                        ep_loss + b_loss / (real (num_nodes t) / real (batch_size t)))
                    (zip (replicate ?n 0) losses)"
    by blast
  from train_step_full_losses[OF assms(1) ts assms(3)]
  have len: "length losses = ?n"
    and val: "\<forall>i < ?n. losses ! i = (\<Sum>b\<leftarrow>passes er 0. curr_losses t [] b ! i)"
    by simp_all
  from el len show "length el = ?n" by simp
  from el len val show "\<forall>i < ?n.
           el ! i = (\<Sum>b\<leftarrow>passes er 0. curr_losses t [] b ! i)
                      / (real (num_nodes t) / real (batch_size t))"
    by simp
qed

lemma full_epoch_succeeds:
  assumes "\<not> truthy_int (sample_size t)" and "passes er 0 \<noteq> []"
    and "\<forall>b \<in> set (passes er 0).
           (label_preds b \<noteq> None \<longrightarrow> labels t \<noteq> None) \<and> curr_losses t [] b \<noteq> []"
    and "batch_size t \<noteq> 0" and "num_nodes t \<noteq> 0"
  shows "\<exists>el. full_epoch t er = Inr el"
proof -
  from train_step_full_succeeds[OF assms(1,2,3)]
  obtain losses added tr where "train_step t None (passes er 0) = Inr (losses, added, tr)"
    by (metis prod_cases3)
  with assms(4,5) show ?thesis by (simp add: full_epoch_def)
qed

text \<open>Without labels a completed batch loop met no label predictions.\<close>

lemma step_batches_no_preds:
  "step_batches t idx bs acc = Inr r \<Longrightarrow> labels t = None \<Longrightarrow> \<forall>b \<in> set bs. label_preds b = None"
proof (induction bs arbitrary: acc)
  case Nil
  show ?case by simp
next
  case (Cons b bs)
  obtain losses added tr where acc: "acc = (losses, added, tr)" by (rule prod_cases3)
  from Cons.prems have here: "label_preds b = None"
    unfolding acc by (simp split: if_splits)
  from Cons.prems(1) obtain acc' where "step_batches t idx bs acc' = Inr r"
    unfolding acc by (auto split: if_splits)
  from Cons.IH[OF this Cons.prems(2)] here show ?case by simp
qed

lemma heads_match_no_labels: "labels t = None \<Longrightarrow> label_preds b = None \<Longrightarrow> heads_match t b"
  by (simp add: heads_match_def n_label_slots_def)

lemma run_epoch_full_length:
  assumes "\<not> truthy_int (sample_size t)" and "labels t = None" and "run_epoch t er = Inr el"
  shows "length el = num_graphs t"
proof -
  from assms(1,3) have fe: "full_epoch t er = Inr el" by (simp add: run_epoch_full)
  from full_epoch_Inr[OF fe] obtain losses added tr where
    ts: "train_step t None (passes er 0) = Inr (losses, added, tr)" by blast
  from train_step_Inr[OF ts]
  have "\<exists>acc. step_batches t (passed_idx None) (passes er 0) acc = Inr (losses, added, tr)"
    by blast
  then obtain acc where
    "step_batches t (passed_idx None) (passes er 0) acc = Inr (losses, added, tr)" by blast
  from step_batches_no_preds[OF this assms(2)]
  have "\<forall>b \<in> set (passes er 0). label_preds b = None" .
  with assms(2) have hm: "\<forall>b \<in> set (passes er 0). heads_match t b"
    by (simp add: heads_match_no_labels)
  from full_epoch_slots(1)[OF assms(1) fe hm] assms(2) show ?thesis
    by (simp add: n_label_slots_def)
qed

text \<open>The run \<open>ex_plain\<close>, evaluated.\<close>

lemma ex_plain_train:
  "train ex_plain ex_plain_env (\<lambda>a. 0)
     = Inr ([[1, 1, 1], [2, 2, 2]],
            Some \<lparr>epoch = 1, state_dict = model_params, best_loss = 3\<rparr>,
            (\<lambda>a. 0)(model_params := 101))"
proof -
  have r0: "run_epoch ex_plain (ex_plain_env 0) = Inr [1, 1, 1]" by code_simp
  have r1: "run_epoch ex_plain (ex_plain_env (Suc 0)) = Inr [2, 2, 2]" by code_simp
  have up: "[0..<epochs ex_plain] = [0, Suc 0]" by (simp add: ex_plain_def upt_rec)
  have tb: "\<And>el. tensorboard_log ex_plain el = Inr ()"
    by (simp add: tensorboard_log_def ex_plain_def)
  have m0: "model_state (ex_plain_env 0) = 100" by (simp add: ex_plain_env_def)
  have m1: "model_state (ex_plain_env (Suc 0)) = 101" by (simp add: ex_plain_env_def)
  show ?thesis
    by (simp add: train_def up r0 r1 tb store_best_def truthy_float_def model_state_dict_def
        optimizer_steps_def m0 m1)
qed

text \<open>\<open>np.array_split\<close> cuts the array into consecutive parts.\<close>

lemma chop_concat: "sum_list ns = length xs \<Longrightarrow> concat (chop ns xs) = xs"
proof (induction ns arbitrary: xs)
  case Nil
  then show ?case by simp
next
  case (Cons n ns)
  from Cons.prems have "sum_list ns = length (drop n xs)" by simp
  from Cons.IH[OF this] show ?case by simp
qed

lemma split_sizes_sum:
  assumes "0 < k"
  shows "sum_list (replicate (n mod k) (n div k + 1) @ replicate (k - n mod k) (n div k)) = (n::nat)"
proof -
  have "n mod k \<le> k" using assms by (simp add: less_imp_le)
  then have "(n mod k) * (n div k + 1) + (k - n mod k) * (n div k) = n mod k + k * (n div k)"
    by (simp add: algebra_simps diff_mult_distrib)
  then show ?thesis by (simp add: sum_list_replicate)
qed

lemma array_split_concat:
  assumes "array_split ary sections = Inr groups"
  shows "concat groups = ary"
proof -
  from assms have pos: "0 < nat sections" by (simp add: array_split_def split: if_splits)
  from assms have "groups = chop (replicate (length ary mod nat sections)
                                    (length ary div nat sections + 1)
                      @ replicate (nat sections - length ary mod nat sections)
                          (length ary div nat sections)) ary"
    by (simp add: array_split_def split: if_splits)
  with split_sizes_sum[OF pos, of "length ary"] show ?thesis by (simp add: chop_concat)
qed

text \<open>A restricted pass returns at least one loss per sampled graph, so the first write loop
  writes the slot of every graph of the group.\<close>

lemma step_batches_length_ge:
  "step_batches t idx bs (losses, added, tr) = Inr (losses', added', tr') \<Longrightarrow>
   n \<le> length losses \<Longrightarrow> \<forall>b \<in> set bs. n \<le> length (curr_losses t idx b) \<Longrightarrow>
   n \<le> length losses'"
proof (induction bs arbitrary: losses added tr)
  case Nil
  then show ?case by simp
next
  case (Cons b bs)
  let ?l1 = "map (\<lambda>(loss, curr_loss). loss + curr_loss) (zip losses (curr_losses t idx b))"
  from Cons.prems(1) have ok:
    "step_batches t idx bs
       (?l1, added @ [map snd (zip losses (curr_losses t idx b))],
        tr @ [ZeroGrad, Backward (sum_list (curr_losses t idx b)), OptimizerStep])
     = Inr (losses', added', tr')"
    by (simp split: if_splits)
  have "n \<le> length ?l1" using Cons.prems(2,3) by simp
  from Cons.IH[OF ok this] Cons.prems(3) show ?case by simp
qed

lemma length_curr_losses_ge:
  "(if truthy_int (sample_size t) then length idx else num_graphs t) \<le> length (curr_losses t idx b)"
  by (simp add: curr_losses_def length_recon_losses split: option.splits)

lemma train_step_sampled_length:
  assumes "truthy_int (sample_size t)"
    and "train_step t (Some g) bs = Inr (losses, added, tr)"
  shows "length g \<le> length losses"
proof -
  from train_step_Inr[OF assms(2)] assms(1)
  have sb: "step_batches t g bs (replicate (length g + n_label_slots t) 0, [], [])
              = Inr (losses, added, tr)"
    by (simp add: passed_idx_def)
  have "\<forall>b \<in> set bs. length g \<le> length (curr_losses t g b)"
    using length_curr_losses_ge[of t g] assms(1) by simp
  from step_batches_length_ge[OF sb _ this] show ?thesis by simp
qed

lemma recon_slots_all: "length g \<le> length losses \<Longrightarrow> recon_slots g losses = g"
  by (simp add: recon_slots_def map_fst_zip_take)

lemma length_write_recon: "length (write_recon g losses el) = length el"
proof -
  have "length (fold (\<lambda>(idx, loss) el. el[idx := el ! idx + loss]) ps el) = length el" for ps
    by (induction ps arbitrary: el) auto
  then show ?thesis by (simp add: write_recon_def)
qed

lemma length_write_cls: "length (write_cls g losses el) = length el"
proof -
  have "length (fold (\<lambda>(idx, loss) el. el[length g + idx := loss]) ps el) = length el" for ps
    by (induction ps arbitrary: el) auto
  then show ?thesis by (simp add: write_cls_def)
qed

lemma sampled_passes_Cons_Inr:
  assumes "sampled_passes t bf (g # rest) k (el0, w0) = Inr r"
  shows "\<exists>losses added tr. train_step t (Some g) (bf k) = Inr (losses, added, tr)
           \<and> (\<forall>i \<in> set (recon_slots g losses @ cls_slots g losses). i < length el0)
           \<and> sampled_passes t bf rest (Suc k)
                 (write_cls g losses (write_recon g losses el0),
                  w0 @ [(recon_slots g losses, cls_slots g losses)]) = Inr r"
  using assms by (auto split: sum.splits if_splits simp: not_le)

lemma sampled_passes_written:
  "sampled_passes t bf groups k (el0, w0) = Inr (el, w) \<Longrightarrow> truthy_int (sample_size t) \<Longrightarrow>
   map fst w = map fst w0 @ groups \<and> length el = length el0"
proof (induction groups arbitrary: k el0 w0)
  case Nil
  then show ?case by simp
next
  case (Cons g rest)
  from sampled_passes_Cons_Inr[OF Cons.prems(1)] obtain losses added tr where
    ts: "train_step t (Some g) (bf k) = Inr (losses, added, tr)"
    and rest: "sampled_passes t bf rest (Suc k)
                 (write_cls g losses (write_recon g losses el0),
                  w0 @ [(recon_slots g losses, cls_slots g losses)]) = Inr (el, w)"
    by blast
  from train_step_sampled_length[OF Cons.prems(2) ts] have "recon_slots g losses = g"
    by (rule recon_slots_all)
  with Cons.IH[OF rest Cons.prems(2)] show ?case
    by (simp add: length_write_recon length_write_cls)
qed

text \<open>What a successful restricted pass returns: one slot per sampled graph and label set,
  each the sum of the batches' terms.\<close>

lemma train_step_sampled_losses:
  assumes "truthy_int (sample_size t)"
    and "train_step t (Some g) bs = Inr (losses, added, tr)"
    and "\<forall>b \<in> set bs. heads_match t b"
  shows "length losses = length g + n_label_slots t"
    and "\<forall>j < length g + n_label_slots t. losses ! j = (\<Sum>b\<leftarrow>bs. curr_losses t g b ! j)"
proof -
  let ?n = "length g + n_label_slots t"
  from train_step_Inr[OF assms(2)] assms(1)
  have ne: "bs \<noteq> []"
    and sb: "step_batches t g bs (replicate ?n 0, [], []) = Inr (losses, added, tr)"
    by (simp_all add: passed_idx_def)
  have len: "\<forall>b \<in> set bs. length (curr_losses t g b) = ?n"
    using assms(1,3) by (simp add: length_curr_losses_heads)
  have le: "?n \<le> length (replicate ?n (0::real))" by simp
  from step_batches_losses[OF sb len le ne]
  show "length losses = ?n"
    and "\<forall>j < ?n. losses ! j = (\<Sum>b\<leftarrow>bs. curr_losses t g b ! j)"
    by simp_all
qed

text \<open>The first write loop over a group without repeated indices.\<close>

lemma write_recon_Cons:
  "write_recon (i # g) (l # ls) el = write_recon g ls (el[i := el ! i + l])"
  by (simp add: write_recon_def)

lemma write_recon_distinct:
  "distinct g \<Longrightarrow> length g \<le> length losses \<Longrightarrow> \<forall>i \<in> set g. i < length el \<Longrightarrow>
   (\<forall>j < length g. write_recon g losses el ! (g ! j) = el ! (g ! j) + losses ! j)
   \<and> (\<forall>x. x \<notin> set g \<longrightarrow> write_recon g losses el ! x = el ! x)"
proof (induction g arbitrary: losses el)
  case Nil
  show ?case by (simp add: write_recon_def)
next
  case (Cons i g)
  from Cons.prems(2) obtain l ls where ls: "losses = l # ls" by (cases losses) auto
  let ?el1 = "el[i := el ! i + l]"
  from Cons.prems(1) have dg: "distinct g" and ig: "i \<notin> set g" by simp_all
  from Cons.prems(2) ls have lg: "length g \<le> length ls" by simp
  from Cons.prems(3) have bg: "\<forall>x \<in> set g. x < length ?el1" and bi: "i < length el" by simp_all
  from Cons.IH[OF dg lg bg]
  have pos: "\<forall>j < length g. write_recon g ls ?el1 ! (g ! j) = ?el1 ! (g ! j) + ls ! j"
    and oth: "\<forall>x. x \<notin> set g \<longrightarrow> write_recon g ls ?el1 ! x = ?el1 ! x"
    by simp_all
  have a: "\<forall>j < length (i # g).
             write_recon (i # g) losses el ! ((i # g) ! j) = el ! ((i # g) ! j) + losses ! j"
  proof (intro allI impI)
    fix j assume j: "j < length (i # g)"
    show "write_recon (i # g) losses el ! ((i # g) ! j) = el ! ((i # g) ! j) + losses ! j"
    proof (cases j)
      case 0
      from oth ig have "write_recon g ls ?el1 ! i = ?el1 ! i" by simp
      with bi 0 ls show ?thesis by (simp add: write_recon_Cons)
    next
      case (Suc j')
      with j have j': "j' < length g" by simp
      then have "g ! j' \<in> set g" by simp
      with ig have "g ! j' \<noteq> i" by auto
      with pos j' have "write_recon g ls ?el1 ! (g ! j') = el ! (g ! j') + ls ! j'" by simp
      with Suc ls show ?thesis by (simp add: write_recon_Cons)
    qed
  qed
  have b: "\<forall>x. x \<notin> set (i # g) \<longrightarrow> write_recon (i # g) losses el ! x = el ! x"
  proof (intro allI impI)
    fix x assume "x \<notin> set (i # g)"
    then have "x \<notin> set g" "x \<noteq> i" by auto
    with oth have "write_recon g ls ?el1 ! x = el ! x" by simp
    with ls show "write_recon (i # g) losses el ! x = el ! x" by (simp add: write_recon_Cons)
  qed
  from a b show ?case by blast
qed

lemma nth_nth_concat:
  assumes "m < length xss" and "j < length (xss ! m)"
  shows "xss ! m ! j \<in> set (concat xss)"
proof -
  from assms(1) have "xss ! m \<in> set xss" by (rule nth_mem)
  moreover from assms(2) have "xss ! m ! j \<in> set (xss ! m)" by (rule nth_mem)
  ultimately show ?thesis unfolding set_concat by blast
qed

lemma write_cls_none: "length losses = length g \<Longrightarrow> write_cls g losses el = el"
  by (simp add: write_cls_def)

text \<open>The accumulator after the loop over the groups, when there is no label set and no
  graph is in two groups.\<close>

lemma sampled_passes_slots:
  "sampled_passes t bf groups k (el0, w0) = Inr (el, w) \<Longrightarrow> truthy_int (sample_size t) \<Longrightarrow>
   n_label_slots t = 0 \<Longrightarrow> \<forall>k. \<forall>b \<in> set (bf k). heads_match t b \<Longrightarrow>
   distinct (concat groups) \<Longrightarrow>
   (\<forall>x. x \<notin> set (concat groups) \<longrightarrow> el ! x = el0 ! x)
   \<and> (\<forall>m < length groups. \<forall>j < length (groups ! m).
         el ! (groups ! m ! j) = el0 ! (groups ! m ! j) + slot_sum t (groups ! m) (bf (k + m)) j)"
proof (induction groups arbitrary: k el0 w0)
  case Nil
  then show ?case by simp
next
  case (Cons g rest)
  from sampled_passes_Cons_Inr[OF Cons.prems(1)] obtain losses added tr where
    ts: "train_step t (Some g) (bf k) = Inr (losses, added, tr)"
    and bd: "\<forall>i \<in> set (recon_slots g losses @ cls_slots g losses). i < length el0"
    and rest: "sampled_passes t bf rest (Suc k)
                 (write_cls g losses (write_recon g losses el0),
                  w0 @ [(recon_slots g losses, cls_slots g losses)]) = Inr (el, w)"
    by blast
  from Cons.prems(4) have hm: "\<forall>b \<in> set (bf k). heads_match t b" by simp
  from train_step_sampled_losses[OF Cons.prems(2) ts hm] Cons.prems(3)
  have len: "length losses = length g"
    and val: "\<forall>j < length g. losses ! j = slot_sum t g (bf k) j"
    by (simp_all add: slot_sum_def)
  from len have rs: "recon_slots g losses = g" by (simp add: recon_slots_all)
  with bd have bg: "\<forall>i \<in> set g. i < length el0" by simp
  let ?el1 = "write_recon g losses el0"
  from rest len have rest': "sampled_passes t bf rest (Suc k)
      (?el1, w0 @ [(recon_slots g losses, cls_slots g losses)]) = Inr (el, w)"
    by (simp add: write_cls_none)
  from Cons.prems(5) have dg: "distinct g" and dr: "distinct (concat rest)"
    and dj: "set g \<inter> set (concat rest) = {}"
    by simp_all
  from len have "length g \<le> length losses" by simp
  from write_recon_distinct[OF dg this bg]
  have w1: "\<forall>j < length g. ?el1 ! (g ! j) = el0 ! (g ! j) + losses ! j"
    and w2: "\<forall>x. x \<notin> set g \<longrightarrow> ?el1 ! x = el0 ! x"
    by simp_all
  from Cons.IH[OF rest' Cons.prems(2,3,4) dr]
  have i1: "\<forall>x. x \<notin> set (concat rest) \<longrightarrow> el ! x = ?el1 ! x"
    and i2: "\<forall>m < length rest. \<forall>j < length (rest ! m).
         el ! (rest ! m ! j) = ?el1 ! (rest ! m ! j) + slot_sum t (rest ! m) (bf (Suc k + m)) j"
    by simp_all
  have a: "\<forall>x. x \<notin> set (concat (g # rest)) \<longrightarrow> el ! x = el0 ! x"
    using i1 w2 by simp
  have b: "\<forall>m < length (g # rest). \<forall>j < length ((g # rest) ! m).
         el ! ((g # rest) ! m ! j)
           = el0 ! ((g # rest) ! m ! j) + slot_sum t ((g # rest) ! m) (bf (k + m)) j"
  proof (intro allI impI)
    fix m j assume m: "m < length (g # rest)" and j: "j < length ((g # rest) ! m)"
    show "el ! ((g # rest) ! m ! j)
           = el0 ! ((g # rest) ! m ! j) + slot_sum t ((g # rest) ! m) (bf (k + m)) j"
    proof (cases m)
      case 0
      with j have jg: "j < length g" by simp
      then have "g ! j \<in> set g" by simp
      with dj have "g ! j \<notin> set (concat rest)" by auto
      with i1 have "el ! (g ! j) = ?el1 ! (g ! j)" by simp
      with w1 val jg 0 show ?thesis by simp
    next
      case (Suc m')
      with m j have m': "m' < length rest" and j': "j < length (rest ! m')" by simp_all
      then have "rest ! m' ! j \<in> set (concat rest)" by (rule nth_nth_concat)
      with dj have "rest ! m' ! j \<notin> set g" by auto
      with w2 have "?el1 ! (rest ! m' ! j) = el0 ! (rest ! m' ! j)" by simp
      with i2 m' j' Suc show ?thesis by simp
    qed
  qed
  from a b show ?case by blast
qed

lemma run_epoch_sampled:
  assumes "run_epoch t er = Inr el" and "sample_size t = Some s" and "s \<noteq> 0"
  shows "\<exists>written. sampled_epoch t s er = Inr (el, written)"
  using assms by (auto simp: run_epoch_def split: sum.splits)

lemma sampled_epoch_Inr:
  assumes "sampled_epoch t s er = Inr (el, written)"
  shows "\<exists>groups. array_split (rand_net_idxs er) \<lfloor>real (num_graphs t) / real_of_int s\<rfloor>
                    = Inr groups
           \<and> sampled_passes t (passes er) groups 0
               (replicate (num_graphs t + n_label_slots t) 0, []) = Inr (el, written)"
  using assms by (auto simp: sampled_epoch_def split: sum.splits)

lemma sampled_passes_bound:
  "sampled_passes t bf groups k (el0, w0) = Inr (el, w) \<Longrightarrow> truthy_int (sample_size t) \<Longrightarrow>
   \<forall>x \<in> set (concat groups). x < length el0"
proof (induction groups arbitrary: k el0 w0)
  case Nil
  then show ?case by simp
next
  case (Cons g rest)
  from sampled_passes_Cons_Inr[OF Cons.prems(1)] obtain losses added tr where
    ts: "train_step t (Some g) (bf k) = Inr (losses, added, tr)"
    and bd: "\<forall>i \<in> set (recon_slots g losses @ cls_slots g losses). i < length el0"
    and rest: "sampled_passes t bf rest (Suc k)
                 (write_cls g losses (write_recon g losses el0),
                  w0 @ [(recon_slots g losses, cls_slots g losses)]) = Inr (el, w)"
    by blast
  from train_step_sampled_length[OF Cons.prems(2) ts] have "recon_slots g losses = g"
    by (rule recon_slots_all)
  with bd have "\<forall>i \<in> set g. i < length el0" by simp
  moreover from Cons.IH[OF rest Cons.prems(2)]
  have "\<forall>x \<in> set (concat rest). x < length el0"
    by (simp add: length_write_recon length_write_cls)
  ultimately show ?case by auto
qed

text \<open>
  C1. The test of line 212 is \<open>not best_loss or sum(epoch_losses) < best_loss\<close>, and
  \<open>not best_loss\<close> also holds for a best loss of 0.0. In the run \<open>ex_zero_env\<close> the total
  losses are 0 and 6: after the first epoch the snapshot holds best loss 0 and epoch 1,
  after the second it holds best loss 6 and epoch 2, which is not the minimum.
\<close>

theorem best_snapshot_overwritten_after_zero_loss:
  "train (ex_plain\<lparr>epochs := 1\<rparr>) ex_zero_env (\<lambda>a. 0)
     = Inr ([[0, 0, 0]],
            Some \<lparr>epoch = 1, state_dict = model_params, best_loss = 0\<rparr>,
            (\<lambda>a. 0)(model_params := 100))
   \<and> train ex_plain ex_zero_env (\<lambda>a. 0)
     = Inr ([[0, 0, 0], [2, 2, 2]],
            Some \<lparr>epoch = 2, state_dict = model_params, best_loss = 6\<rparr>,
            (\<lambda>a. 0)(model_params := 101))"
proof -
  have r0: "run_epoch ex_plain (ex_zero_env 0) = Inr [0, 0, 0]" by code_simp
  have r0': "run_epoch (ex_plain\<lparr>epochs := Suc 0\<rparr>) (ex_zero_env 0) = Inr [0, 0, 0]" by code_simp
  have r1: "run_epoch ex_plain (ex_zero_env (Suc 0)) = Inr [2, 2, 2]" by code_simp
  have up: "[0..<epochs ex_plain] = [0, Suc 0]" by (simp add: ex_plain_def upt_rec)
  have tb: "\<And>el. tensorboard_log ex_plain el = Inr ()"
    "\<And>el. tensorboard_log (ex_plain\<lparr>epochs := Suc 0\<rparr>) el = Inr ()"
    by (simp_all add: tensorboard_log_def ex_plain_def)
  have m0: "model_state (ex_zero_env 0) = 100" by (simp add: ex_zero_env_def)
  have m1: "model_state (ex_zero_env (Suc 0)) = 101" by (simp add: ex_zero_env_def)
  have one: "train (ex_plain\<lparr>epochs := 1\<rparr>) ex_zero_env (\<lambda>a. 0)
     = Inr ([[0, 0, 0]],
            Some \<lparr>epoch = 1, state_dict = model_params, best_loss = 0\<rparr>,
            (\<lambda>a. 0)(model_params := 100))"
    by (simp add: train_def r0' tb store_best_def truthy_float_def model_state_dict_def
        optimizer_steps_def m0)
  have two: "train ex_plain ex_zero_env (\<lambda>a. 0)
     = Inr ([[0, 0, 0], [2, 2, 2]],
            Some \<lparr>epoch = 2, state_dict = model_params, best_loss = 6\<rparr>,
            (\<lambda>a. 0)(model_params := 101))"
    by (simp add: train_def up r0 r1 tb store_best_def truthy_float_def model_state_dict_def
        optimizer_steps_def m0 m1)
  from one two show ?thesis by simp
qed

text \<open>
  C2. With sub-sampling and labels, the second write loop of a restricted pass assigns the
  classification losses to the slots from \<open>len(rand_idxs)\<close> on, the size of the group, not
  from \<open>len(self.adj)\<close> on. In the run \<open>ex_sampled\<close> (two graphs, groups \<open>[0]\<close> and \<open>[1]\<close>,
  reconstruction losses 1 and 2, classification loss 5) both passes write the
  classification loss to slot 1, the slot of the second graph, and the tail slot 2 is never
  written: the epoch ends with \<open>[1, 5, 0]\<close>.
\<close>

theorem classification_losses_written_at_group_size:
  "num_graphs ex_sampled = 2
   \<and> array_split (rand_net_idxs ex_sampled_env) 2 = Inr [[0], [1]]
   \<and> train_step ex_sampled (Some [0]) (passes ex_sampled_env 0)
       = Inr ([1, 5], [[1, 5]], [ZeroGrad, Backward 6, OptimizerStep])
   \<and> train_step ex_sampled (Some [1]) (passes ex_sampled_env 1)
       = Inr ([2, 5], [[2, 5]], [ZeroGrad, Backward 7, OptimizerStep])
   \<and> sampled_epoch ex_sampled 1 ex_sampled_env
       = Inr ([1, 5, 0], [([0], [1]), ([1], [1])])
   \<and> run_epoch ex_sampled ex_sampled_env = Inr [1, 5, 0]"
  by code_simp

text \<open>
  C3. In a successful call of \<open>_train_step\<close> in which the encoder returns the same number
  of label predictions for every batch, the terms that a batch adds to the \<open>losses\<close> list
  sum to the scalar on which \<open>backward\<close> is called for that batch.
\<close>

theorem train_step_terms_sum_to_backward:
  assumes "train_step t rand_net_idx bs = Inr (losses, added, tr)"
    and "\<forall>b \<in> set bs. label_preds b = lp"
  shows "length added = length bs \<and> length (backward_calls tr) = length bs
         \<and> (\<forall>k < length bs. sum_list (added ! k) = backward_calls tr ! k)"
proof -
  let ?idx = "passed_idx rand_net_idx"
  let ?n0 = "(if truthy_int (sample_size t) then length ?idx else num_graphs t) + n_label_slots t"
  from train_step_Inr[OF assms(1)]
  have ne: "bs \<noteq> []"
    and sb: "step_batches t ?idx bs (replicate ?n0 0, [], []) = Inr (losses, added, tr)"
    by simp_all
  from ne obtain b0 where b0: "b0 \<in> set bs" by (cases bs) auto
  have same: "\<forall>b \<in> set bs. length (curr_losses t ?idx b) = length (curr_losses t ?idx b0)"
    using assms(2) b0 by (auto intro: length_curr_losses_same)
  have le: "length (curr_losses t ?idx b0) \<le> length (replicate ?n0 (0::real))"
    using length_curr_losses_le[of t ?idx b0] by simp
  from step_batches_added[OF sb same le]
  have added: "added = map (curr_losses t ?idx) bs" by simp
  from step_batches_trace[OF sb]
  have "backward_calls tr = map (\<lambda>b. sum_list (curr_losses t ?idx b)) bs"
    by (simp add: backward_calls_trace)
  with added show ?thesis by simp
qed

theorem train_step_terms_sum_to_backward_witness:
  "train_step ex_labelled None [ex_labelled_batch, ex_labelled_batch]
     = Inr ([2, 4, 10], [[1, 2, 5], [1, 2, 5]],
            [ZeroGrad, Backward 8, OptimizerStep, ZeroGrad, Backward 8, OptimizerStep])
   \<and> label_preds ex_labelled_batch = Some 1
   \<and> sum_list ([[1, 2, 5], [1, 2, 5]] ! 1)
       = backward_calls [ZeroGrad, Backward 8, OptimizerStep, ZeroGrad, Backward 8, OptimizerStep] ! 1"
proof -
  have h: "train_step ex_labelled None [ex_labelled_batch, ex_labelled_batch]
     = Inr ([2, 4, 10], [[1, 2, 5], [1, 2, 5]],
            [ZeroGrad, Backward 8, OptimizerStep, ZeroGrad, Backward 8, OptimizerStep])"
    by code_simp
  have p: "\<forall>b \<in> set [ex_labelled_batch, ex_labelled_batch]. label_preds b = Some 1"
    by (simp add: ex_labelled_batch_def)
  show ?thesis using h p train_step_terms_sum_to_backward[OF h p] by simp
qed



text \<open>
  C5. After a completed training without labels, \<open>forward\<close> does call \<open>load_state_dict\<close>
  on the best snapshot, but the snapshot holds the parameter tensors of the model
  themselves, which the later optimizer steps have overwritten: the parameters used for
  inference are those left by the last epoch, not those of the epoch with the lowest total
  loss, which the comment of line 355 says are recovered. In the run \<open>ex_plain\<close> the
  first epoch is the best (total loss 3, parameters 100) and the snapshot records epoch 1,
  yet inference runs on the parameters 101 of the second epoch.
\<close>

theorem forward_keeps_final_parameters:
  "train ex_plain ex_plain_env (\<lambda>a. 0)
     = Inr ([[1, 1, 1], [2, 2, 2]],
            Some \<lparr>epoch = 1, state_dict = model_params, best_loss = 3\<rparr>,
            (\<lambda>a. 0)(model_params := 101))
   \<and> model_state (ex_plain_env 0) = 100
   \<and> model_state (ex_plain_env 1) = 101
   \<and> train_forward ex_plain ex_plain_env (\<lambda>a. 0) = Inr (True, 101)"
proof -
  have l: "labels ex_plain = None" by (simp add: ex_plain_def)
  have m: "model_state (ex_plain_env 0) = 100" "model_state (ex_plain_env 1) = 101"
    by (simp_all add: ex_plain_env_def)
  show ?thesis
    using m by (simp add: ex_plain_train train_forward_def forward_def read_snapshot_def l)
qed



text \<open>
  C7, as stated, fails without sub-sampling: the entries of the accumulator are not the sums
  of the batches' terms. In an epoch of \<open>ex_labelled\<close> with two batches the sums are
  \<open>[2, 4, 10]\<close> and the accumulator is \<open>[1, 2, 5]\<close>.
\<close>

theorem epoch_accumulator_is_not_the_sum:
  "run_epoch ex_labelled ex_labelled_env = Inr [1, 2, 5]
   \<and> map (slot_sum ex_labelled [] (passes ex_labelled_env 0)) [0, 1, 2] = [2, 4, 10]
   \<and> run_epoch ex_labelled ex_labelled_env
       \<noteq> Inr (map (slot_sum ex_labelled [] (passes ex_labelled_env 0)) [0, 1, 2])"
  by code_simp

text \<open>
  C7, amended. In every completed epoch in which the encoder returns one label prediction per
  label set, the accumulator, which starts from zeros, has length \<open>num_graphs + num_labels\<close>.
  Without sub-sampling each entry is the sum across the epoch's batches of that slot's loss
  term divided by \<open>len(self.index) / batch_size\<close>, the average announced on line 167. With
  sub-sampling and no label set, the slot that a restricted pass writes for a sampled graph
  holds the sum of that graph's loss term across the batches of the pass.
\<close>

theorem epoch_accumulator_slots:
  assumes "run_epoch t er = Inr epoch_losses"
    and "\<forall>k. \<forall>b \<in> set (passes er k). heads_match t b"
    and "distinct (rand_net_idxs er)"
  shows "length epoch_losses = num_graphs t + n_label_slots t
    \<and> (\<not> truthy_int (sample_size t) \<longrightarrow>
         (\<forall>i < num_graphs t + n_label_slots t.
            epoch_losses ! i
              = slot_sum t [] (passes er 0) i / (real (num_nodes t) / real (batch_size t))))
    \<and> (n_label_slots t = 0 \<longrightarrow>
         (\<forall>s written. sample_size t = Some s \<and> s \<noteq> 0
              \<and> sampled_epoch t s er = Inr (epoch_losses, written) \<longrightarrow>
            (\<forall>k < length written. \<forall>j < length (fst (written ! k)).
               epoch_losses ! (fst (written ! k) ! j)
                 = slot_sum t (fst (written ! k)) (passes er k) j)))"
proof (cases "truthy_int (sample_size t)")
  case False
  with assms(1) have fe: "full_epoch t er = Inr epoch_losses" by (simp add: run_epoch_full)
  from assms(2) have hm: "\<forall>b \<in> set (passes er 0). heads_match t b" by simp
  from full_epoch_slots[OF False fe hm]
  have "length epoch_losses = num_graphs t + n_label_slots t"
    and "\<forall>i < num_graphs t + n_label_slots t.
            epoch_losses ! i
              = slot_sum t [] (passes er 0) i / (real (num_nodes t) / real (batch_size t))"
    by (simp_all add: slot_sum_def)
  moreover from False have "\<And>s. sample_size t = Some s \<Longrightarrow> s = 0"
    by (simp add: truthy_int_def)
  ultimately show ?thesis by blast
next
  case True
  then obtain s where s: "sample_size t = Some s" "s \<noteq> 0"
    by (auto simp: truthy_int_def split: option.splits)
  from run_epoch_sampled[OF assms(1) s] obtain written where
    se: "sampled_epoch t s er = Inr (epoch_losses, written)" by blast
  from sampled_epoch_Inr[OF se] obtain groups where
    sp: "array_split (rand_net_idxs er) \<lfloor>real (num_graphs t) / real_of_int s\<rfloor> = Inr groups"
    and ps: "sampled_passes t (passes er) groups 0
               (replicate (num_graphs t + n_label_slots t) 0, []) = Inr (epoch_losses, written)"
    by blast
  from sampled_passes_written[OF ps True]
  have wr: "map fst written = groups"
    and len: "length epoch_losses = num_graphs t + n_label_slots t"
    by simp_all
  have slots: "\<forall>k < length written. \<forall>j < length (fst (written ! k)).
               epoch_losses ! (fst (written ! k) ! j)
                 = slot_sum t (fst (written ! k)) (passes er k) j"
    if nl: "n_label_slots t = 0"
  proof (intro allI impI)
    fix k j assume k: "k < length written" and j: "j < length (fst (written ! k))"
    from wr k have gk: "k < length groups" and fk: "fst (written ! k) = groups ! k" by auto
    from j fk have jk: "j < length (groups ! k)" by simp
    from array_split_concat[OF sp] assms(3) have dc: "distinct (concat groups)" by simp
    from sampled_passes_slots[OF ps True nl assms(2) dc]
    have "\<forall>m < length groups. \<forall>j < length (groups ! m).
            epoch_losses ! (groups ! m ! j)
              = replicate (num_graphs t + n_label_slots t) 0 ! (groups ! m ! j)
                + slot_sum t (groups ! m) (passes er (0 + m)) j"
      by blast
    with gk jk
    have v: "epoch_losses ! (groups ! k ! j)
          = replicate (num_graphs t + n_label_slots t) 0 ! (groups ! k ! j)
            + slot_sum t (groups ! k) (passes er (0 + k)) j"
      by blast
    from gk jk have mem: "groups ! k ! j \<in> set (concat groups)" by (rule nth_nth_concat)
    from sampled_passes_bound[OF ps True]
    have "\<forall>x \<in> set (concat groups). x < num_graphs t + n_label_slots t"
      by (simp only: length_replicate)
    with mem have "groups ! k ! j < num_graphs t + n_label_slots t" by blast
    with v fk show "epoch_losses ! (fst (written ! k) ! j)
                 = slot_sum t (fst (written ! k)) (passes er k) j"
      by simp
  qed
  have "\<forall>s' written'. sample_size t = Some s' \<and> s' \<noteq> 0
              \<and> sampled_epoch t s' er = Inr (epoch_losses, written') \<longrightarrow> written' = written"
    using s se by auto
  with len True slots show ?thesis by blast
qed

theorem epoch_accumulator_slots_witness:
  "run_epoch ex_labelled ex_labelled_env = Inr [1, 2, 5]
   \<and> heads_match ex_labelled ex_labelled_batch
   \<and> distinct (rand_net_idxs ex_labelled_env)
   \<and> \<not> truthy_int (sample_size ex_labelled)
   \<and> length [1, 2, 5::real] = num_graphs ex_labelled + n_label_slots ex_labelled
   \<and> [1, 2, 5] ! 2
       = slot_sum ex_labelled [] (passes ex_labelled_env 0) 2
           / (real (num_nodes ex_labelled) / real (batch_size ex_labelled))
   \<and> run_epoch ex_sampled_plain ex_sampled_plain_env = Inr [2, 4, 6]
   \<and> heads_match ex_sampled_plain ex_graph_batch
   \<and> distinct (rand_net_idxs ex_sampled_plain_env)
   \<and> n_label_slots ex_sampled_plain = 0
   \<and> sample_size ex_sampled_plain = Some 1
   \<and> sampled_epoch ex_sampled_plain 1 ex_sampled_plain_env
       = Inr ([2, 4, 6], [([2], []), ([0], []), ([1], [])])
   \<and> [2, 4, 6] ! 2 = slot_sum ex_sampled_plain [2] (passes ex_sampled_plain_env 0) 0"
proof -
  have r1: "run_epoch ex_labelled ex_labelled_env = Inr [1, 2, 5]" by code_simp
  have b1: "heads_match ex_labelled ex_labelled_batch" by code_simp
  have h1: "\<forall>k. \<forall>b \<in> set (passes ex_labelled_env k). heads_match ex_labelled b"
    using b1 by (simp add: ex_labelled_env_def)
  have d1: "distinct (rand_net_idxs ex_labelled_env)" by (simp add: ex_labelled_env_def)
  have n1: "\<not> truthy_int (sample_size ex_labelled)"
    by (simp add: ex_labelled_def truthy_int_def)
  have c1: "num_graphs ex_labelled + n_label_slots ex_labelled = 3"
    by (simp add: ex_labelled_def n_label_slots_def)
  from epoch_accumulator_slots[OF r1 h1 d1] n1 c1
  have l1: "length [1, 2, 5::real] = num_graphs ex_labelled + n_label_slots ex_labelled"
    and all1: "\<forall>i < 3. [1, 2, 5] ! i
       = slot_sum ex_labelled [] (passes ex_labelled_env 0) i
           / (real (num_nodes ex_labelled) / real (batch_size ex_labelled))"
    by simp_all
  have "(2::nat) < 3" by simp
  with all1 have v1: "[1, 2, 5] ! 2
       = slot_sum ex_labelled [] (passes ex_labelled_env 0) 2
           / (real (num_nodes ex_labelled) / real (batch_size ex_labelled))"
    by blast
  have r2: "run_epoch ex_sampled_plain ex_sampled_plain_env = Inr [2, 4, 6]" by code_simp
  have b2: "heads_match ex_sampled_plain ex_graph_batch" by code_simp
  have h2: "\<forall>k. \<forall>b \<in> set (passes ex_sampled_plain_env k). heads_match ex_sampled_plain b"
    using b2 by (simp add: ex_sampled_plain_env_def)
  have d2: "distinct (rand_net_idxs ex_sampled_plain_env)"
    by (simp add: ex_sampled_plain_env_def)
  have z2: "n_label_slots ex_sampled_plain = 0"
    by (simp add: ex_sampled_plain_def n_label_slots_def)
  have s2: "sample_size ex_sampled_plain = Some 1" by (simp add: ex_sampled_plain_def)
  have e2: "sampled_epoch ex_sampled_plain 1 ex_sampled_plain_env
       = Inr ([2, 4, 6], [([2], []), ([0], []), ([1], [])])"
    by code_simp
  have nz: "(1::int) \<noteq> 0" by simp
  from epoch_accumulator_slots[OF r2 h2 d2] z2
  have a2: "\<forall>s written. sample_size ex_sampled_plain = Some s \<and> s \<noteq> 0
              \<and> sampled_epoch ex_sampled_plain s ex_sampled_plain_env = Inr ([2, 4, 6], written) \<longrightarrow>
            (\<forall>k < length written. \<forall>j < length (fst (written ! k)).
               [2, 4, 6] ! (fst (written ! k) ! j)
                 = slot_sum ex_sampled_plain (fst (written ! k)) (passes ex_sampled_plain_env k) j)"
    by blast
  from a2[rule_format, OF conjI[OF s2 conjI[OF nz e2]], of 0 0]
  have v2: "[2, 4, 6] ! 2 = slot_sum ex_sampled_plain [2] (passes ex_sampled_plain_env 0) 0"
    by simp
  from r1 b1 d1 n1 l1 v1 r2 b2 d2 z2 s2 e2 v2 show ?thesis by blast
qed

text \<open>
  C8. In the configuration with 3 graphs of 10 nodes, no labels, no sub-sampling, 2 epochs
  and batches of 10 nodes, whenever \<open>train\<close> completes, \<open>train_loss\<close> has length 2, each of
  its entries has length 3, and \<open>best_state\<close> is a snapshot whose epoch is 1 or 2.
\<close>

theorem scenario_three_graphs_two_epochs:
  assumes "num_graphs t = 3" and "num_nodes t = 10" and "labels t = None"
    and "sample_size t = None" and "epochs t = 2" and "batch_size t = 10"
    and "train t env h = Inr (train_loss, best_state, h')"
  shows "length train_loss = 2 \<and> (\<forall>l \<in> set train_loss. length l = 3)
         \<and> (\<exists>s. best_state = Some s \<and> (epoch s = 1 \<or> epoch s = 2))"
proof -
  from assms(7) obtain bl where
    te: "train_epochs t env [0..<epochs t] ([], None, None, h) = Inr (train_loss, bl, best_state, h')"
    by (auto simp: train_def split: sum.splits)
  from train_epochs_loss[OF te] have
    els: "map (\<lambda>ep. run_epoch t (env ep)) [0..<epochs t] = map Inr train_loss" by auto
  from arg_cong[OF els, of length] have len: "length train_loss = 2" using assms(5) by simp
  have ns: "\<not> truthy_int (sample_size t)" using assms(4) by (simp add: truthy_int_def)
  have each: "\<forall>l \<in> set train_loss. length l = 3"
  proof
    fix l assume "l \<in> set train_loss"
    then obtain i where i: "i < length train_loss" "train_loss ! i = l"
      by (auto simp: in_set_conv_nth)
    from els i(1) len assms(5) have "map (\<lambda>ep. run_epoch t (env ep)) [0..<epochs t] ! i
        = map Inr train_loss ! i" by simp
    with i len assms(5) have "run_epoch t (env i) = Inr l" by simp
    from run_epoch_full_length[OF ns assms(3) this] assms(1) show "length l = 3" by simp
  qed
  have ne: "[0..<epochs t] \<noteq> []" using assms(5) by simp
  with train_epochs_best_Some[OF te] obtain s where s: "best_state = Some s" by auto
  from train_epochs_epoch[OF te[unfolded s]] have "epoch s \<in> Suc ` set [0..<epochs t]" by simp
  with assms(5) have "epoch s = 1 \<or> epoch s = 2" by auto
  with len each s show ?thesis by simp
qed

theorem scenario_three_graphs_two_epochs_witness:
  "num_graphs ex_plain = 3 \<and> num_nodes ex_plain = 10 \<and> labels ex_plain = None
   \<and> sample_size ex_plain = None \<and> epochs ex_plain = 2 \<and> batch_size ex_plain = 10
   \<and> train ex_plain ex_plain_env (\<lambda>a. 0)
       = Inr ([[1, 1, 1], [2, 2, 2]],
              Some \<lparr>epoch = 1, state_dict = model_params, best_loss = 3\<rparr>,
              (\<lambda>a. 0)(model_params := 101))
   \<and> length [[1, 1, 1], [2, 2, 2::real]] = 2
   \<and> map length [[1, 1, 1], [2, 2, 2::real]] = [3, 3]
   \<and> epoch \<lparr>epoch = 1, state_dict = model_params, best_loss = 3\<rparr> = 1"
proof -
  have c: "num_graphs ex_plain = 3" "num_nodes ex_plain = 10" "labels ex_plain = None"
    "sample_size ex_plain = None" "epochs ex_plain = 2" "batch_size ex_plain = 10"
    by (simp_all add: ex_plain_def)
  show ?thesis
    using c ex_plain_train scenario_three_graphs_two_epochs[OF c ex_plain_train] by simp
qed

text \<open>
  C9. When the configured initialization scheme is neither \<open>kaiming\<close> nor \<open>xavier\<close> and the
  network has a module with a \<open>weight\<close> attribute, \<open>_init_model\<close> raises the
  \<open>ValueError\<close> of \<open>_init_model_weights\<close>. Nothing in \<open>_init_model\<close> catches it, and
  \<open>_init_model\<close> is the last call of the constructor, so no trainer exists on which a
  training step could run.
\<close>

theorem init_model_rejects_unknown_scheme:
  assumes "initialization t \<noteq> ''kaiming''" and "initialization t \<noteq> ''xavier''"
    and "m \<in> set mods" and "has_weight m"
  shows "init_model t mods = Inl (ValueError (initialization t))"
proof -
  have here: "init_model_weights t m = Inl (ValueError (initialization t))"
    using assms(1,2,4) by (simp add: init_model_weights_def)
  have only: "\<forall>m' e'. init_model_weights t m' = Inl e' \<longrightarrow> e' = ValueError (initialization t)"
    by (auto simp: init_model_weights_def split: if_splits)
  from module_apply_Inl[OF assms(3) here only] show ?thesis
    by (simp add: init_model_def)
qed

theorem init_model_rejects_unknown_scheme_witness:
  "init_model (ex_plain\<lparr>initialization := ''normal''\<rparr>)
     [\<lparr>has_weight = False, weight_init = None\<rparr>, \<lparr>has_weight = True, weight_init = None\<rparr>]
   = Inl (ValueError ''normal'')"
  using init_model_rejects_unknown_scheme
          [of "ex_plain\<lparr>initialization := ''normal''\<rparr>"
              "\<lparr>has_weight = True, weight_init = None\<rparr>"
              "[\<lparr>has_weight = False, weight_init = None\<rparr>, \<lparr>has_weight = True, weight_init = None\<rparr>]"]
  by (simp add: ex_plain_def)

text \<open>
  C10. When \<open>self.labels\<close> is the empty list, the truthiness test of \<open>_init_model\<close> fails
  and the network is built with \<open>n_classes = None\<close>, while the test against \<open>None\<close> in
  \<open>forward\<close> succeeds and the parameters are not reset to the best snapshot; the test of
  \<open>train\<close> against \<open>None\<close> adds no label slot to the accumulator.
\<close>

theorem empty_labels_tests_disagree:
  assumes "labels t = Some []"
  shows "n_classes t = None
         \<and> (case init_model t mods of Inl e \<Rightarrow> True | Inr (nc, ms) \<Rightarrow> nc = None)
         \<and> forward t best_state current = Inr (False, current)
         \<and> \<not> truthy_list (labels t) \<and> labels t \<noteq> None
         \<and> n_label_slots t = 0"
  using assms
  by (simp add: n_classes_def init_model_def forward_def truthy_list_def n_label_slots_def
           split: sum.splits)

theorem empty_labels_tests_disagree_witness:
  "labels (ex_plain\<lparr>labels := Some []\<rparr>) = Some []
   \<and> n_classes (ex_plain\<lparr>labels := Some []\<rparr>) = None
   \<and> forward (ex_plain\<lparr>labels := Some []\<rparr>)
        (Some \<lparr>epoch = 1, state_dict = 0::nat, best_loss = 3\<rparr>) 7 = Inr (False, 7)"
proof -
  have h: "labels (ex_plain\<lparr>labels := Some []\<rparr>) = Some []" by simp
  show ?thesis
    using h empty_labels_tests_disagree[OF h, of "[]" "Some \<lparr>epoch = 1, state_dict = 0::nat, best_loss = 3\<rparr>" 7]
    by simp
qed

end
